theory Spec2Isabelle
  imports Main "HOL-Library.Word" "HOL-Library.Multiset" "HOL-Library.List_Lexorder"
    "HOL-Library.Char_ord"
begin

unbundle bit_operations_syntax

text \<open>
  A model of the watchtower's chain monitor, appointment record and cryptographer, and
  the properties of them that the specification states. The definitions come first,
  component by component, in the order of the source files; the properties follow.
\<close>

section \<open>Bytes and hexadecimal strings\<close>

text \<open>
  Python \<open>bytes\<close> are lists of 8-bit words, Python \<open>str\<close> values are \<open>string\<close>s.
  \<open>binascii.hexlify\<close> writes two lower-case digits per byte; \<open>binascii.unhexlify\<close>
  reads digits of either case and raises \<open>binascii.Error\<close> (a \<open>ValueError\<close>) on an
  odd number of digits or on a character that is no hexadecimal digit.
\<close>

type_synonym byte = "8 word"
type_synonym bytes = "byte list"

datatype py_error =
    ValueError string
  | BinasciiError
  | OverflowError
  | IndexError

definition hex_digit :: "nat \<Rightarrow> char" where
  "hex_digit n = ''0123456789abcdef'' ! (n mod 16)"

definition hexlify :: "bytes \<Rightarrow> string" where
  "hexlify bs = concat (map (\<lambda>b. [hex_digit (unat b div 16), hex_digit (unat b mod 16)]) bs)"

section \<open>ChainMonitor (pisa/chain\_monitor.py)\<close>

text \<open>
  A tip is a Python value that is either a block hash or \<open>None\<close>: \<open>best_tip\<close> is
  \<open>None\<close> after \<open>__init__\<close>, and \<open>update_state\<close> appends the previous \<open>best_tip\<close>,
  whatever it is, to \<open>last_tips\<close>. The two queues are the lists of the values put
  into them, oldest first.
\<close>

type_synonym tip = "string option"

record chain_monitor =
  best_tip :: tip
  last_tips :: "tip list"
  terminate :: bool
  watcher_queue :: "tip list"
  responder_queue :: "tip list"

definition init_monitor :: "tip list \<Rightarrow> tip list \<Rightarrow> chain_monitor" where
  "init_monitor wq rq =
     \<lparr>best_tip = None, last_tips = [], terminate = False,
      watcher_queue = wq, responder_queue = rq\<rparr>"

definition notify_subscribers :: "tip \<Rightarrow> chain_monitor \<Rightarrow> chain_monitor" where
  "notify_subscribers block_hash s =
     s\<lparr>watcher_queue := watcher_queue s @ [block_hash],
       responder_queue := responder_queue s @ [block_hash]\<rparr>"

text \<open>
  \<open>update_state\<close> returns its boolean together with the new state. \<open>pop(0)\<close> is
  applied to a list that has just been appended to, so it cannot raise; it is \<open>tl\<close>.
\<close>

definition update_state :: "tip \<Rightarrow> int \<Rightarrow> chain_monitor \<Rightarrow> bool \<times> chain_monitor" where
  "update_state block_hash max_block_window_size s =
     (if block_hash \<noteq> best_tip s \<and> block_hash \<notin> set (last_tips s) then
        let s1 = s\<lparr>last_tips := last_tips s @ [best_tip s]\<rparr>;
            s2 = s1\<lparr>best_tip := block_hash\<rparr>;
            s3 = (if int (length (last_tips s2)) > max_block_window_size
                  then s2\<lparr>last_tips := tl (last_tips s2)\<rparr> else s2)
        in (True, s3)
      else (False, s))"

text \<open>
  The section both loops run under the lock: update the state and, when it changed,
  notify the subscribers.
\<close>

definition locked_update :: "int \<Rightarrow> tip \<Rightarrow> chain_monitor \<Rightarrow> chain_monitor" where
  "locked_update w block_hash s =
     (case update_state block_hash w s of
        (True, s') \<Rightarrow> notify_subscribers block_hash s'
      | (False, s') \<Rightarrow> s')"

text \<open>
  One pass through the body of each loop, after the blocking call has returned:
  \<open>current_tip\<close> is what \<open>BlockProcessor.get_best_block_hash()\<close> answered, \<open>topic\<close>
  and \<open>body\<close> are the first two frames of the message received.
\<close>

definition monitor_chain_polling_body :: "int \<Rightarrow> tip \<Rightarrow> chain_monitor \<Rightarrow> chain_monitor" where
  "monitor_chain_polling_body w current_tip s =
     (if \<not> terminate s then locked_update w current_tip s else s)"

definition monitor_chain_zmq_body :: "int \<Rightarrow> string \<Rightarrow> bytes \<Rightarrow> chain_monitor \<Rightarrow> chain_monitor" where
  "monitor_chain_zmq_body w topic body s =
     (if \<not> terminate s then
        (if topic = ''hashblock'' then locked_update w (Some (hexlify body)) s else s)
      else s)"

text \<open>
  The lock serialises the two threads: a run of the monitor is a list of loop passes,
  each from one of the two detection paths.
\<close>

datatype detection = Polling tip | Zmq string bytes

fun detection_step :: "int \<Rightarrow> detection \<Rightarrow> chain_monitor \<Rightarrow> chain_monitor" where
  "detection_step w (Polling current_tip) s = monitor_chain_polling_body w current_tip s"
| "detection_step w (Zmq topic body) s = monitor_chain_zmq_body w topic body s"

fun run_monitor :: "int \<Rightarrow> detection list \<Rightarrow> chain_monitor \<Rightarrow> chain_monitor" where
  "run_monitor w [] s = s"
| "run_monitor w (d # ds) s = run_monitor w ds (detection_step w d s)"

fun update_calls :: "int \<Rightarrow> tip list \<Rightarrow> chain_monitor \<Rightarrow> chain_monitor" where
  "update_calls w [] s = s"
| "update_calls w (b # bs) s = update_calls w bs (snd (update_state b w s))"

definition window :: "chain_monitor \<Rightarrow> tip list" where
  "window s = best_tip s # last_tips s"

definition tips_inv :: "chain_monitor \<Rightarrow> bool" where
  "tips_inv s \<longleftrightarrow> best_tip s \<notin> set (last_tips s) \<and> distinct (last_tips s)"

section \<open>Appointment (pisa/appointment.py)\<close>

text \<open>
  The constructor and \<open>from_dict\<close> check no types, so a field holds any Python value
  that a decoded JSON object can carry. A \<open>str\<close> is a list of 8-bit characters here.
\<close>

datatype pyval = PyNone | PyBool bool | PyInt int | PyStr string

text \<open>
  Modelled from the spec: the class \<open>EncryptedBlob\<close> of \<open>encrypted_blob.py\<close>, which is
  not among the sources. It holds the ciphertext it is given as its attribute \<open>data\<close>,
  and two of them are equal when their \<open>data\<close> are.
\<close>

datatype 'a encrypted_blob = EncryptedBlob (data: 'a)

record appointment =
  locator :: pyval
  start_time :: pyval
  end_time :: pyval
  to_self_delay :: pyval
  encrypted_blob :: "pyval encrypted_blob"

text \<open>
  A \<open>dict\<close> keeps its items in insertion order: it is an association list.
  \<open>d.get(k)\<close> answers \<open>None\<close> for a missing key; \<open>d[k] = v\<close> replaces the value of a
  key in place or adds the item at the end.
\<close>

type_synonym py_dict = "(string \<times> pyval) list"

definition dict_get :: "py_dict \<Rightarrow> string \<Rightarrow> pyval" where
  "dict_get d k = (case map_of d k of None \<Rightarrow> PyNone | Some v \<Rightarrow> v)"

fun dict_set :: "string \<Rightarrow> pyval \<Rightarrow> py_dict \<Rightarrow> py_dict" where
  "dict_set k v [] = [(k, v)]"
| "dict_set k v ((k', v') # d) = (if k = k' then (k, v) # d else (k', v') # dict_set k v d)"

definition Appointment :: "pyval \<Rightarrow> pyval \<Rightarrow> pyval \<Rightarrow> pyval \<Rightarrow> pyval \<Rightarrow> appointment" where
  "Appointment l st et tsd eb =
     \<lparr>locator = l, start_time = st, end_time = et, to_self_delay = tsd,
      encrypted_blob = EncryptedBlob eb\<rparr>"

definition from_dict :: "py_dict \<Rightarrow> py_error + appointment" where
  "from_dict appointment_data =
     (let l = dict_get appointment_data ''locator'';
          st = dict_get appointment_data ''start_time'';
          et = dict_get appointment_data ''end_time'';
          tsd = dict_get appointment_data ''to_self_delay'';
          encrypted_blob_data = dict_get appointment_data ''encrypted_blob''
      in if list_ex (\<lambda>v. v = PyNone) [l, st, et, tsd, encrypted_blob_data]
         then Inl (ValueError ''Wrong appointment data, some fields are missing'')
         else Inr (Appointment l st et tsd encrypted_blob_data))"

definition to_dict :: "appointment \<Rightarrow> py_dict" where
  "to_dict a =
     [(''locator'', locator a), (''start_time'', start_time a), (''end_time'', end_time a),
      (''to_self_delay'', to_self_delay a), (''encrypted_blob'', encrypted_blob.data (encrypted_blob a))]"

text \<open>
  \<open>json.dumps(d, sort_keys=True, separators=(",", ":"))\<close> on a dictionary with \<open>str\<close>
  keys and values that are \<open>None\<close>, booleans, integers or strings: the items sorted
  by key, each written as key, colon, value, joined by commas inside braces. Strings
  are escaped as \<open>ensure_ascii\<close> does: the two-character escapes, and \<open>\u00xx\<close> for
  every other character outside the range from space to tilde.
\<close>

fun dec_nat :: "nat \<Rightarrow> string" where
  "dec_nat n = (if n < 10 then [hex_digit n] else dec_nat (n div 10) @ [hex_digit (n mod 10)])"

declare dec_nat.simps [simp del]

definition dec_int :: "int \<Rightarrow> string" where
  "dec_int i = (if i < 0 then CHR ''-'' # dec_nat (nat (- i)) else dec_nat (nat i))"

definition json_escape_char :: "char \<Rightarrow> string" where
  \<open>json_escape_char c =
     (if c = CHR ''"'' then [CHR 0x5C, CHR ''"'']
      else if c = CHR 0x5C then [CHR 0x5C, CHR 0x5C]
      else if c = CHR 0x0A then [CHR 0x5C, CHR ''n'']
      else if c = CHR 0x0D then [CHR 0x5C, CHR ''r'']
      else if c = CHR 0x09 then [CHR 0x5C, CHR ''t'']
      else if c = CHR 0x08 then [CHR 0x5C, CHR ''b'']
      else if c = CHR 0x0C then [CHR 0x5C, CHR ''f'']
      else if of_char c < (0x20 :: nat) \<or> (0x7E :: nat) < of_char c
        then [CHR 0x5C, CHR ''u'', CHR ''0'', CHR ''0'',
              hex_digit (of_char c div 16), hex_digit (of_char c mod 16)]
      else [c])\<close>

definition json_str :: "string \<Rightarrow> string" where
  \<open>json_str s = [CHR ''"''] @ concat (map json_escape_char s) @ [CHR ''"'']\<close>

fun json_val :: "pyval \<Rightarrow> string" where
  "json_val PyNone = ''null''"
| "json_val (PyBool b) = (if b then ''true'' else ''false'')"
| "json_val (PyInt i) = dec_int i"
| "json_val (PyStr s) = json_str s"

fun join :: "string \<Rightarrow> string list \<Rightarrow> string" where
  "join sep [] = []"
| "join sep [x] = x"
| "join sep (x # y # ys) = x @ sep @ join sep (y # ys)"

definition json_dumps :: "py_dict \<Rightarrow> string" where
  "json_dumps d =
     ''{'' @ join '','' (map (\<lambda>(k, v). json_str k @ '':'' @ json_val v) (sort_key fst d)) @ ''}''"

definition to_json :: "appointment \<Rightarrow> bool \<Rightarrow> string" where
  "to_json a triggered = json_dumps (dict_set ''triggered'' (PyBool triggered) (to_dict a))"


section \<open>Primitives of the libraries the Cryptographer calls\<close>

subsection \<open>binascii, int\_to\_bytes\<close>

definition unhex_digit :: "char \<Rightarrow> nat option" where
  "unhex_digit c =
     (let n = (of_char c :: nat) in
      if 48 \<le> n \<and> n \<le> 57 then Some (n - 48)
      else if 97 \<le> n \<and> n \<le> 102 then Some (n - 87)
      else if 65 \<le> n \<and> n \<le> 70 then Some (n - 55)
      else None)"

fun unhexlify :: "string \<Rightarrow> py_error + bytes" where
  "unhexlify [] = Inr []"
| "unhexlify [c] = Inl BinasciiError"
| "unhexlify (c1 # c2 # cs) =
     (case (unhex_digit c1, unhex_digit c2) of
        (Some h, Some l) \<Rightarrow>
          (case unhexlify cs of
             Inl e \<Rightarrow> Inl e
           | Inr bs \<Rightarrow> Inr (word_of_nat (16 * h + l) # bs))
      | _ \<Rightarrow> Inl BinasciiError)"

text \<open>Big-endian and little-endian bytes of a natural number, \<open>n\<close> bytes wide.\<close>

definition le_bytes :: "nat \<Rightarrow> nat \<Rightarrow> bytes" where
  "le_bytes n x = map (\<lambda>i. word_of_nat (x div 256 ^ i)) [0..<n]"

definition be_bytes :: "nat \<Rightarrow> nat \<Rightarrow> bytes" where
  "be_bytes n x = rev (le_bytes n x)"

definition le_nat :: "bytes \<Rightarrow> nat" where
  "le_nat bs = foldr (\<lambda>b acc. unat b + 256 * acc) bs 0"

definition be_nat :: "bytes \<Rightarrow> nat" where
  "be_nat bs = le_nat (rev bs)"

text \<open>
  \<open>coincurve.utils.int_to_bytes\<close>:
  \<^verbatim>\<open>num.to_bytes((num.bit_length() + 7) // 8 or 1, 'big')\<close>.
  \<open>int.to_bytes\<close> raises \<open>OverflowError\<close> on a negative number.
\<close>

fun byte_length :: "nat \<Rightarrow> nat" where
  "byte_length n = (if n < 256 then 1 else Suc (byte_length (n div 256)))"

declare byte_length.simps [simp del]

definition int_to_bytes :: "int \<Rightarrow> py_error + bytes" where
  "int_to_bytes num =
     (if num < 0 then Inl OverflowError
      else Inr (be_bytes (byte_length (nat num)) (nat num)))"

subsection \<open>hashlib.sha256 (FIPS 180-4)\<close>

type_synonym u32 = "32 word"

text \<open>
  The sixty-four round constants are the first thirty-two bits of the fractional parts
  of the cube roots of the first sixty-four primes: the cube root of \<open>p * 2 ^ 96\<close>,
  rounded down, modulo \<open>2 ^ 32\<close>.
\<close>

fun cube_root_bits :: "nat \<Rightarrow> nat \<Rightarrow> nat \<Rightarrow> nat" where
  "cube_root_bits 0 r n = r"
| "cube_root_bits (Suc k) r n =
     cube_root_bits k (if (r + 2 ^ k) ^ 3 \<le> n then r + 2 ^ k else r) n"

definition primes_below :: "nat \<Rightarrow> nat list" where
  "primes_below n = filter (\<lambda>p. list_all (\<lambda>d. p mod d \<noteq> 0) [2..<p]) [2..<n]"

definition sha256_k :: "u32 list" where
  "sha256_k = map (\<lambda>p. word_of_nat (cube_root_bits 36 0 (p * 2 ^ 96))) (primes_below 312)"

definition sha256_h0 :: "u32 list" where
  "sha256_h0 =
    [0x6a09e667, 0xbb67ae85, 0x3c6ef372, 0xa54ff53a, 0x510e527f, 0x9b05688c, 0x1f83d9ab, 0x5be0cd19]"

definition sha256_pad :: "bytes \<Rightarrow> bytes" where
  "sha256_pad m =
     m @ [0x80] @ replicate ((119 - length m mod 64) mod 64) 0 @ be_bytes 8 (8 * length m)"

fun chunks :: "nat \<Rightarrow> 'a list \<Rightarrow> 'a list list" where
  "chunks n xs = (if n = 0 \<or> xs = [] then [] else take n xs # chunks n (drop n xs))"

declare chunks.simps [simp del]

definition be_word :: "bytes \<Rightarrow> u32" where
  "be_word bs = word_of_nat (be_nat bs)"

definition small_sigma0 :: "u32 \<Rightarrow> u32" where
  "small_sigma0 x = word_rotr 7 x XOR word_rotr 18 x XOR drop_bit 3 x"

definition small_sigma1 :: "u32 \<Rightarrow> u32" where
  "small_sigma1 x = word_rotr 17 x XOR word_rotr 19 x XOR drop_bit 10 x"

definition big_sigma0 :: "u32 \<Rightarrow> u32" where
  "big_sigma0 x = word_rotr 2 x XOR word_rotr 13 x XOR word_rotr 22 x"

definition big_sigma1 :: "u32 \<Rightarrow> u32" where
  "big_sigma1 x = word_rotr 6 x XOR word_rotr 11 x XOR word_rotr 25 x"

text \<open>The message schedule: the sixteen words of the block, extended to sixty-four.\<close>

fun sha256_schedule :: "nat \<Rightarrow> u32 list \<Rightarrow> u32 list" where
  "sha256_schedule 0 w = w"
| "sha256_schedule (Suc n) w =
     (let t = length w in
      sha256_schedule n
        (w @ [small_sigma1 (w ! (t - 2)) + w ! (t - 7) + small_sigma0 (w ! (t - 15)) + w ! (t - 16)]))"

fun sha256_round :: "u32 list \<Rightarrow> u32 \<times> u32 \<Rightarrow> u32 list" where
  "sha256_round [a, b, c, d, e, f, g, h] (k, w) =
     (let t1 = h + big_sigma1 e + ((e AND f) XOR (NOT e AND g)) + k + w;
          t2 = big_sigma0 a + ((a AND b) XOR (a AND c) XOR (b AND c))
      in [t1 + t2, a, b, c, d + t1, e, f, g])"
| "sha256_round v _ = v"

definition sha256_compress :: "u32 list \<Rightarrow> bytes \<Rightarrow> u32 list" where
  "sha256_compress hs block =
     (let w = sha256_schedule 48 (map be_word (chunks 4 block))
      in map2 (+) hs (foldl sha256_round hs (zip sha256_k w)))"

definition sha256 :: "bytes \<Rightarrow> bytes" where
  "sha256 m =
     concat (map (\<lambda>h. be_bytes 4 (unat h)) (foldl sha256_compress sha256_h0 (chunks 64 (sha256_pad m))))"

subsection \<open>ChaCha20-Poly1305 (RFC 8439), as \<open>cryptography\<close>'s \<open>ChaCha20Poly1305\<close>\<close>

definition quarter_round :: "nat \<Rightarrow> nat \<Rightarrow> nat \<Rightarrow> nat \<Rightarrow> u32 list \<Rightarrow> u32 list" where
  "quarter_round a b c d s0 =
     (let s1 = s0[a := s0 ! a + s0 ! b];
          s2 = s1[d := word_rotl 16 (s1 ! d XOR s1 ! a)];
          s3 = s2[c := s2 ! c + s2 ! d];
          s4 = s3[b := word_rotl 12 (s3 ! b XOR s3 ! c)];
          s5 = s4[a := s4 ! a + s4 ! b];
          s6 = s5[d := word_rotl 8 (s5 ! d XOR s5 ! a)];
          s7 = s6[c := s6 ! c + s6 ! d];
          s8 = s7[b := word_rotl 7 (s7 ! b XOR s7 ! c)]
      in s8)"

definition double_round :: "u32 list \<Rightarrow> u32 list" where
  "double_round s =
     quarter_round 3 4 9 14 (quarter_round 2 7 8 13 (quarter_round 1 6 11 12
       (quarter_round 0 5 10 15 (quarter_round 3 7 11 15 (quarter_round 2 6 10 14
         (quarter_round 1 5 9 13 (quarter_round 0 4 8 12 s)))))))"

definition le_word :: "bytes \<Rightarrow> u32" where
  "le_word bs = word_of_nat (le_nat bs)"

definition chacha20_block :: "bytes \<Rightarrow> u32 \<Rightarrow> bytes \<Rightarrow> bytes" where
  "chacha20_block key counter nonce =
     (let s = [0x61707865, 0x3320646e, 0x79622d32, 0x6b206574]
                @ map le_word (chunks 4 key) @ [counter] @ map le_word (chunks 4 nonce)
      in concat (map (\<lambda>w. le_bytes 4 (unat w)) (map2 (+) s ((double_round ^^ 10) s))))"

definition chacha20_keystream :: "bytes \<Rightarrow> u32 \<Rightarrow> bytes \<Rightarrow> nat \<Rightarrow> bytes" where
  "chacha20_keystream key counter nonce n =
     concat (map (\<lambda>j. chacha20_block key (counter + word_of_nat j) nonce) [0..<(n + 63) div 64])"

definition chacha20_encrypt :: "bytes \<Rightarrow> u32 \<Rightarrow> bytes \<Rightarrow> bytes \<Rightarrow> bytes" where
  "chacha20_encrypt key counter nonce m =
     map2 (XOR) m (chacha20_keystream key counter nonce (length m))"

definition poly1305_mac :: "bytes \<Rightarrow> bytes \<Rightarrow> bytes" where
  "poly1305_mac m key =
     (let r = and (le_nat (take 16 key)) 0x0ffffffc0ffffffc0ffffffc0fffffff;
          s = le_nat (take 16 (drop 16 key));
          a = foldl (\<lambda>acc c. ((acc + le_nat (c @ [1])) * r) mod (2 ^ 130 - 5)) 0 (chunks 16 m)
      in le_bytes 16 (a + s))"

definition pad16 :: "bytes \<Rightarrow> bytes" where
  "pad16 x = replicate ((16 - length x mod 16) mod 16) 0"

definition aead_tag :: "bytes \<Rightarrow> bytes \<Rightarrow> bytes \<Rightarrow> bytes \<Rightarrow> bytes" where
  "aead_tag key nonce aad ct =
     (let otk = take 32 (chacha20_block key 0 nonce)
      in poly1305_mac (aad @ pad16 aad @ ct @ pad16 ct
                        @ le_bytes 8 (length aad) @ le_bytes 8 (length ct)) otk)"

definition chacha20poly1305_encrypt :: "bytes \<Rightarrow> bytes \<Rightarrow> bytes \<Rightarrow> bytes \<Rightarrow> bytes" where
  "chacha20poly1305_encrypt key nonce msg aad =
     (let ct = chacha20_encrypt key 1 nonce msg in ct @ aead_tag key nonce aad ct)"

text \<open>\<open>None\<close> is the \<open>InvalidTag\<close> exception.\<close>

definition chacha20poly1305_decrypt :: "bytes \<Rightarrow> bytes \<Rightarrow> bytes \<Rightarrow> bytes \<Rightarrow> bytes option" where
  "chacha20poly1305_decrypt key nonce msg aad =
     (if length msg < 16 then None
      else let ct = take (length msg - 16) msg; tag = drop (length msg - 16) msg
           in if aead_tag key nonce aad ct = tag then Some (chacha20_encrypt key 1 nonce ct)
              else None)"

subsection \<open>pyzbase32\<close>

text \<open>
  z-base-32: the bits of the bytes, most significant first, in groups of five (the last
  group filled with zero bits), each group a character of the alphabet. Decoding
  concatenates the five bits of every character and keeps the whole bytes; a character
  outside the alphabet is an error.
\<close>

definition zbase32_alphabet :: string where
  "zbase32_alphabet = ''ybndrfg8ejkmcpqxot1uwisza345h769''"

definition bits_of_nat :: "nat \<Rightarrow> nat \<Rightarrow> bool list" where
  "bits_of_nat n x = map (\<lambda>i. odd (x div 2 ^ i)) (rev [0..<n])"

definition nat_of_bits :: "bool list \<Rightarrow> nat" where
  "nat_of_bits bs = foldl (\<lambda>acc b. 2 * acc + (if b then 1 else 0)) 0 bs"

definition bits_of_bytes :: "bytes \<Rightarrow> bool list" where
  "bits_of_bytes bs = concat (map (\<lambda>b. bits_of_nat 8 (unat b)) bs)"

definition encode_bytes :: "bytes \<Rightarrow> string" where
  "encode_bytes bs =
     (let bits = bits_of_bytes bs;
          padded = bits @ replicate ((5 - length bits mod 5) mod 5) False
      in map (\<lambda>g. zbase32_alphabet ! nat_of_bits g) (chunks 5 padded))"

fun index_of :: "'a \<Rightarrow> 'a list \<Rightarrow> nat option" where
  "index_of x [] = None"
| "index_of x (y # ys) = (if x = y then Some 0 else map_option Suc (index_of x ys))"

fun decode_quintets :: "string \<Rightarrow> py_error + bool list" where
  "decode_quintets [] = Inr []"
| "decode_quintets (c # cs) =
     (case index_of c zbase32_alphabet of
        None \<Rightarrow> Inl (ValueError ''Invalid character'')
      | Some i \<Rightarrow>
          (case decode_quintets cs of
             Inl e \<Rightarrow> Inl e
           | Inr bits \<Rightarrow> Inr (bits_of_nat 5 i @ bits)))"

definition decode_bytes :: "string \<Rightarrow> py_error + bytes" where
  "decode_bytes s =
     (case decode_quintets s of
        Inl e \<Rightarrow> Inl e
      | Inr bits \<Rightarrow>
          Inr (map (\<lambda>g. word_of_nat (nat_of_bits g))
                 (chunks 8 (take (8 * (length bits div 8)) bits))))"

subsection \<open>coincurve\<close>

text \<open>
  The recoverable ECDSA of \<open>coincurve\<close> over secp256k1 is a parameter: the four
  operations the Cryptographer uses, on the digest that the \<open>hasher\<close> argument makes of
  the message. \<open>sign_recoverable\<close> answers the signature followed by the recovery id;
  \<open>from_signature_and_message\<close> raises on a signature it cannot use.
\<close>

record ('sk, 'pk, 'pt) coincurve =
  sign_recoverable :: "'sk \<Rightarrow> bytes \<Rightarrow> bytes"
  from_signature_and_message :: "bytes \<Rightarrow> bytes \<Rightarrow> py_error + 'pk"
  public_key :: "'sk \<Rightarrow> 'pk"
  point :: "'pk \<Rightarrow> 'pt"

section \<open>Cryptographer (common/cryptographer.py)\<close>

text \<open>
  Modelled from the spec: the class \<open>Blob\<close> of \<open>common/blob.py\<close>, which is not among
  the sources. It holds the plaintext, a hex string, as its attribute \<open>data\<close>.
\<close>

datatype blob = Blob (data: string)

text \<open>
  The module's \<open>logger\<close> is taken to be set, as the tests set it; what is logged is
  not part of the model.
\<close>

definition LN_MESSAGE_PREFIX :: bytes where
  "LN_MESSAGE_PREFIX = map of_char ''Lightning Signed Message:''"

definition sha256d :: "bytes \<Rightarrow> bytes" where
  "sha256d message = sha256 (sha256 message)"

text \<open>
  \<open>rsig_rid[64]\<close> and \<open>sigrec[0]\<close> raise \<open>IndexError\<close> on a value that is too short.
\<close>

definition sigrec_encode :: "bytes \<Rightarrow> py_error + bytes" where
  "sigrec_encode rsig_rid =
     (if length rsig_rid \<le> 64 then Inl IndexError
      else let rsig = take 64 rsig_rid; rid = uint (rsig_rid ! 64)
           in case int_to_bytes (rid + 31) of
                Inl e \<Rightarrow> Inl e
              | Inr b \<Rightarrow> Inr (b @ rsig))"

definition sigrec_decode :: "bytes \<Rightarrow> py_error + bytes" where
  "sigrec_decode sigrec =
     (case sigrec of
        [] \<Rightarrow> Inl IndexError
      | b0 # rsig \<Rightarrow>
          (case int_to_bytes (uint b0 - 31) of
             Inl e \<Rightarrow> Inl e
           | Inr rid \<Rightarrow> Inr (rsig @ rid)))"

text \<open>
  Modelled from the spec: \<open>check_sha256_hex_format\<close> of \<open>common/tools.py\<close>, which
  is not among the sources; the spec asks for a secret of exactly 64 hex characters,
  and the test of the function accepts digits of either case.
\<close>

definition is_hex_char :: "char \<Rightarrow> bool" where
  "is_hex_char c \<longleftrightarrow> unhex_digit c \<noteq> None"

definition check_sha256_hex_format :: "string \<Rightarrow> bool" where
  "check_sha256_hex_format v \<longleftrightarrow> length v = 64 \<and> list_all is_hex_char v"

definition check_data_key_format :: "string \<Rightarrow> string \<Rightarrow> py_error + bool" where
  "check_data_key_format dat secret =
     (if length dat mod 2 \<noteq> 0 then Inl (ValueError ''Incorrect (Odd-length) value'')
      else if \<not> check_sha256_hex_format secret
        then Inl (ValueError ''Secret must be a 32-byte hex value (64 hex chars)'')
      else Inr True)"

text \<open>\<open>str.lower\<close> on the letters of ASCII.\<close>

definition lower_char :: "char \<Rightarrow> char" where
  "lower_char c =
     (case map_of (zip ''ABCDEFGHIJKLMNOPQRSTUVWXYZ'' ''abcdefghijklmnopqrstuvwxyz'') c of
        Some l \<Rightarrow> l
      | None \<Rightarrow> c)"

definition lower :: "string \<Rightarrow> string" where
  "lower s = map lower_char s"

text \<open>
  To tell what a call has done before it raises, \<open>encrypt\<close> and \<open>decrypt\<close> are
  written as sequences of steps that record the cipher operations they perform: the
  derivation of the key, the construction of the cipher, encryption and decryption.
  A step that raises ends the sequence; the record holds what ran before it.
\<close>

datatype cipher_op = KeyDerivation | CipherInit | CipherEncrypt | CipherDecrypt

type_synonym 'a steps = "cipher_op list \<times> (py_error + 'a)"

definition plain :: "py_error + 'a \<Rightarrow> 'a steps" where
  "plain r = ([], r)"

definition performs :: "cipher_op \<Rightarrow> 'a \<Rightarrow> 'a steps" where
  "performs c x = ([c], Inr x)"

definition and_then :: "'a steps \<Rightarrow> ('a \<Rightarrow> 'b steps) \<Rightarrow> 'b steps" where
  "and_then m f =
     (case m of
        (t, Inl e) \<Rightarrow> (t, Inl e)
      | (t, Inr x) \<Rightarrow> (case f x of (t', r) \<Rightarrow> (t @ t', r)))"

definition encrypt_steps :: "blob \<Rightarrow> string \<Rightarrow> string steps" where
  "encrypt_steps blob secret =
     and_then (plain (check_data_key_format (blob.data blob) secret)) (\<lambda>_.
     and_then (plain (unhexlify (blob.data blob))) (\<lambda>tx.
     and_then (plain (unhexlify secret)) (\<lambda>raw.
     and_then (performs KeyDerivation (sha256 raw)) (\<lambda>sk.
     and_then (plain (Inr (replicate 12 0))) (\<lambda>nonce.
     and_then (performs CipherInit sk) (\<lambda>cipher.
     and_then (performs CipherEncrypt (chacha20poly1305_encrypt cipher nonce tx [])) (\<lambda>ct.
     plain (Inr (hexlify ct)))))))))"

definition encrypt :: "blob \<Rightarrow> string \<Rightarrow> py_error + string" where
  "encrypt blob secret = snd (encrypt_steps blob secret)"

text \<open>\<open>decrypt\<close> answers \<open>None\<close> when the cipher raises \<open>InvalidTag\<close>.\<close>

definition decrypt_steps :: "string encrypted_blob \<Rightarrow> string \<Rightarrow> string option steps" where
  "decrypt_steps eb secret =
     and_then (plain (check_data_key_format (encrypted_blob.data eb) secret)) (\<lambda>_.
     and_then (plain (unhexlify secret)) (\<lambda>raw.
     and_then (performs KeyDerivation (sha256 raw)) (\<lambda>sk.
     and_then (plain (Inr (replicate 12 0))) (\<lambda>nonce.
     and_then (performs CipherInit sk) (\<lambda>cipher.
     and_then (plain (unhexlify (encrypted_blob.data eb))) (\<lambda>dat.
     and_then (performs CipherDecrypt (chacha20poly1305_decrypt cipher nonce dat [])) (\<lambda>r.
     plain (Inr (map_option hexlify r)))))))))"

definition decrypt :: "string encrypted_blob \<Rightarrow> string \<Rightarrow> py_error + string option" where
  "decrypt eb secret = snd (decrypt_steps eb secret)"

text \<open>The composition \<open>decrypt(EncryptedBlob(encrypt(blob, secret)), secret)\<close>.\<close>

definition decrypt_encrypt :: "blob \<Rightarrow> string \<Rightarrow> py_error + string option" where
  "decrypt_encrypt blob secret =
     (case encrypt blob secret of
        Inl e \<Rightarrow> Inl e
      | Inr c \<Rightarrow> decrypt (EncryptedBlob c) secret)"

text \<open>
  \<open>sign\<close> and \<open>recover_pk\<close> on a message that is \<open>bytes\<close>, a key that is a
  \<open>PrivateKey\<close> and a signature that is a \<open>str\<close>. In \<open>recover_pk\<close> only the call
  of \<open>from_signature_and_message\<close> stands inside the \<open>try\<close>: whatever it raises
  becomes the result \<open>None\<close>.
\<close>

definition sign :: "('sk, 'pk, 'pt) coincurve \<Rightarrow> bytes \<Rightarrow> 'sk \<Rightarrow> py_error + string" where
  "sign lib message sk =
     (let rsig_rid = sign_recoverable lib sk (sha256d (LN_MESSAGE_PREFIX @ message))
      in case sigrec_encode rsig_rid of
           Inl e \<Rightarrow> Inl e
         | Inr sigrec \<Rightarrow> Inr (encode_bytes sigrec))"

definition recover_pk :: "('sk, 'pk, 'pt) coincurve \<Rightarrow> bytes \<Rightarrow> string \<Rightarrow> py_error + 'pk option" where
  "recover_pk lib message zb32_sig =
     (case decode_bytes zb32_sig of
        Inl e \<Rightarrow> Inl e
      | Inr sigrec \<Rightarrow>
          (case sigrec_decode sigrec of
             Inl e \<Rightarrow> Inl e
           | Inr rsig_recid \<Rightarrow>
               (case from_signature_and_message lib rsig_recid
                       (sha256d (LN_MESSAGE_PREFIX @ message)) of
                  Inr pk \<Rightarrow> Inr (Some pk)
                | Inl e \<Rightarrow> Inr None)))"

definition verify_rpk :: "('sk, 'pk, 'pt) coincurve \<Rightarrow> 'pk \<Rightarrow> 'pk \<Rightarrow> bool" where
  "verify_rpk lib pk rpk \<longleftrightarrow> point lib pk = point lib rpk"

section \<open>ChainMonitor: rejection of known tips\<close>

lemma update_state_known:
  "h \<in> set (window s) \<Longrightarrow> update_state h w s = (False, s)"
  by (auto simp: update_state_def window_def)

lemma locked_update_known:
  "h \<in> set (window s) \<Longrightarrow> locked_update w h s = s"
  by (simp add: locked_update_def update_state_known)

lemma locked_update_queues:
  "watcher_queue (locked_update w b s) =
     (if b \<in> set (window s) then watcher_queue s else watcher_queue s @ [b])"
  "responder_queue (locked_update w b s) =
     (if b \<in> set (window s) then responder_queue s else responder_queue s @ [b])"
  by (auto simp: locked_update_def update_state_def window_def notify_subscribers_def Let_def)

lemma detection_step_count:
  assumes "h \<in> set (window s)"
  shows "count_list (watcher_queue (detection_step w d s)) h = count_list (watcher_queue s) h"
    and "count_list (responder_queue (detection_step w d s)) h = count_list (responder_queue s) h"
  using assms
  by (cases d; auto simp: monitor_chain_polling_body_def monitor_chain_zmq_body_def
        locked_update_queues)+

lemma run_monitor_count:
  "(\<forall>n < length ds. h \<in> set (window (run_monitor w (take n ds) s))) \<Longrightarrow>
   count_list (watcher_queue (run_monitor w ds s)) h = count_list (watcher_queue s) h \<and>
   count_list (responder_queue (run_monitor w ds s)) h = count_list (responder_queue s) h"
proof (induction ds arbitrary: s)
  case Nil
  then show ?case by simp
next
  case (Cons d ds)
  from Cons.prems have here: "h \<in> set (window s)"
    by (auto dest: spec [of _ 0])
  have later: "\<forall>n < length ds. h \<in> set (window (run_monitor w (take n ds) (detection_step w d s)))"
  proof (intro allI impI)
    fix n assume "n < length ds"
    with Cons.prems have "h \<in> set (window (run_monitor w (take (Suc n) (d # ds)) s))"
      by (metis Suc_less_eq length_Cons)
    then show "h \<in> set (window (run_monitor w (take n ds) (detection_step w d s)))"
      by simp
  qed
  from Cons.IH [OF later] detection_step_count [OF here, of w d]
  show ?case by simp
qed

text \<open>
  C1. A candidate equal to \<open>best_tip\<close> or found in \<open>last_tips\<close> makes \<open>update_state\<close>
  return \<open>False\<close> and leave the state as it is, and neither loop puts it into a queue.
  Over a serialised run of passes of both loops, a hash that stays recorded (as
  \<open>best_tip\<close> or in \<open>last_tips\<close>) before every pass is not delivered again: the number
  of its occurrences in each queue does not change.
\<close>

theorem known_tip_rejected:
  assumes "block_hash = best_tip s \<or> block_hash \<in> set (last_tips s)"
  shows "update_state block_hash w s = (False, s) \<and>
         monitor_chain_polling_body w block_hash s = s \<and>
         (block_hash = Some (hexlify body) \<longrightarrow> monitor_chain_zmq_body w topic body s = s) \<and>
         ((\<forall>n < length ds. block_hash \<in> set (window (run_monitor w (take n ds) s))) \<longrightarrow>
            count_list (watcher_queue (run_monitor w ds s)) block_hash
              = count_list (watcher_queue s) block_hash \<and>
            count_list (responder_queue (run_monitor w ds s)) block_hash
              = count_list (responder_queue s) block_hash)"
proof -
  from assms have k: "block_hash \<in> set (window s)"
    by (auto simp: window_def)
  have "update_state block_hash w s = (False, s)"
    by (rule update_state_known [OF k])
  moreover have "monitor_chain_polling_body w block_hash s = s"
    by (simp add: monitor_chain_polling_body_def locked_update_known [OF k])
  moreover have "block_hash = Some (hexlify body) \<longrightarrow> monitor_chain_zmq_body w topic body s = s"
    using locked_update_known [OF k, of w] by (auto simp: monitor_chain_zmq_body_def)
  ultimately show ?thesis
    using run_monitor_count [of ds block_hash w s] by blast
qed

lemma hexlify_b1: "hexlify [0xb1] = ''b1''"
  by (simp add: hexlify_def hex_digit_def)

theorem known_tip_rejected_witness:
  "(Some ''b1'' = best_tip \<lparr>best_tip = Some ''b2'', last_tips = [None, Some ''b1''],
        terminate = False, watcher_queue = [Some ''b1'', Some ''b2''],
        responder_queue = [Some ''b1'', Some ''b2'']\<rparr>
    \<or> Some ''b1'' \<in> set (last_tips \<lparr>best_tip = Some ''b2'', last_tips = [None, Some ''b1''],
        terminate = False, watcher_queue = [Some ''b1'', Some ''b2''],
        responder_queue = [Some ''b1'', Some ''b2'']\<rparr>)) \<and>
   update_state (Some ''b1'') 5 \<lparr>best_tip = Some ''b2'', last_tips = [None, Some ''b1''],
        terminate = False, watcher_queue = [Some ''b1'', Some ''b2''],
        responder_queue = [Some ''b1'', Some ''b2'']\<rparr>
     = (False, \<lparr>best_tip = Some ''b2'', last_tips = [None, Some ''b1''],
        terminate = False, watcher_queue = [Some ''b1'', Some ''b2''],
        responder_queue = [Some ''b1'', Some ''b2'']\<rparr>) \<and>
   monitor_chain_zmq_body 5 ''hashblock'' [0xb1] \<lparr>best_tip = Some ''b2'',
        last_tips = [None, Some ''b1''],
        terminate = False, watcher_queue = [Some ''b1'', Some ''b2''],
        responder_queue = [Some ''b1'', Some ''b2'']\<rparr>
     = \<lparr>best_tip = Some ''b2'', last_tips = [None, Some ''b1''],
        terminate = False, watcher_queue = [Some ''b1'', Some ''b2''],
        responder_queue = [Some ''b1'', Some ''b2'']\<rparr> \<and>
   count_list (watcher_queue (run_monitor 5 [Polling (Some ''b3''), Zmq ''hashblock'' [0xb1]]
        \<lparr>best_tip = Some ''b2'', last_tips = [None, Some ''b1''],
        terminate = False, watcher_queue = [Some ''b1'', Some ''b2''],
        responder_queue = [Some ''b1'', Some ''b2'']\<rparr>)) (Some ''b1'') = 1"
proof -
  let ?s = "\<lparr>best_tip = Some ''b2'', last_tips = [None, Some ''b1''],
        terminate = False, watcher_queue = [Some ''b1'', Some ''b2''],
        responder_queue = [Some ''b1'', Some ''b2'']\<rparr>"
  let ?ds = "[Polling (Some ''b3''), Zmq ''hashblock'' [0xb1]]"
  have h: "Some ''b1'' = best_tip ?s \<or> Some ''b1'' \<in> set (last_tips ?s)"
    by simp
  have stays: "\<forall>n < length ?ds. Some ''b1'' \<in> set (window (run_monitor 5 (take n ?ds) ?s))"
    by (simp add: less_Suc_eq window_def monitor_chain_polling_body_def locked_update_def
        update_state_def notify_subscribers_def)
  from known_tip_rejected [OF h, of 5 "[0xb1]" "''hashblock''" ?ds] stays hexlify_b1
  show ?thesis by simp
qed

section \<open>ChainMonitor: accepted tips and the sliding window\<close>

lemma update_state_length:
  "int (length (last_tips s)) \<le> w \<Longrightarrow> int (length (last_tips (snd (update_state b w s)))) \<le> w"
  by (auto simp: update_state_def Let_def)

lemma update_calls_length:
  "int (length (last_tips s)) \<le> w \<Longrightarrow> int (length (last_tips (update_calls w bs s))) \<le> w"
  by (induction bs arbitrary: s) (simp_all add: update_state_length)

text \<open>
  C2. A candidate that differs from \<open>best_tip\<close> and is not in \<open>last_tips\<close> is accepted:
  the previous \<open>best_tip\<close> goes to the back of \<open>last_tips\<close>, the candidate becomes
  \<open>best_tip\<close>, the front element is dropped when the list is then longer than the window
  size, and the call returns \<open>True\<close>. From a state whose \<open>last_tips\<close> has at most \<open>w\<close>
  elements, it has at most \<open>w\<close> elements after every call of any sequence of calls
  with window size \<open>w\<close>.
\<close>

theorem new_tip_accepted_window_bounded:
  "(block_hash \<noteq> best_tip s \<and> block_hash \<notin> set (last_tips s) \<longrightarrow>
      update_state block_hash w s =
        (True, s\<lparr>best_tip := block_hash,
                 last_tips := (if int (length (last_tips s @ [best_tip s])) > w
                               then tl (last_tips s @ [best_tip s])
                               else last_tips s @ [best_tip s])\<rparr>)) \<and>
   (int (length (last_tips s0)) \<le> w0 \<longrightarrow>
      (\<forall>n \<le> length bs. int (length (last_tips (update_calls w0 (take n bs) s0))) \<le> w0))"
  by (simp add: update_state_def Let_def update_calls_length)

theorem new_tip_accepted_window_bounded_witness:
  "(Some ''c'' \<noteq> best_tip (init_monitor [] []\<lparr>best_tip := Some ''b'', last_tips := [None, Some ''a'']\<rparr>) \<and>
    Some ''c'' \<notin> set (last_tips (init_monitor [] []\<lparr>best_tip := Some ''b'', last_tips := [None, Some ''a'']\<rparr>))) \<and>
   update_state (Some ''c'') 2 (init_monitor [] []\<lparr>best_tip := Some ''b'', last_tips := [None, Some ''a'']\<rparr>)
     = (True, init_monitor [] []\<lparr>best_tip := Some ''c'', last_tips := [Some ''a'', Some ''b'']\<rparr>) \<and>
   int (length (last_tips (init_monitor [] []))) \<le> 1 \<and>
   int (length (last_tips (update_calls 1 [Some ''a'', Some ''b'', Some ''c''] (init_monitor [] [])))) \<le> 1"
proof -
  let ?s = "init_monitor [] []\<lparr>best_tip := Some ''b'', last_tips := [None, Some ''a'']\<rparr>"
  let ?bs = "[Some ''a'', Some ''b'', Some ''c'']"
  have h0: "int (length (last_tips (init_monitor [] []))) \<le> 1"
    by (simp add: init_monitor_def)
  from new_tip_accepted_window_bounded [of "Some ''c''" ?s 2 "init_monitor [] []" 1 ?bs]
  have "update_state (Some ''c'') 2 ?s
          = (True, init_monitor [] []\<lparr>best_tip := Some ''c'', last_tips := [Some ''a'', Some ''b'']\<rparr>)"
    and "\<forall>n \<le> length ?bs. int (length (last_tips (update_calls 1 (take n ?bs) (init_monitor [] [])))) \<le> 1"
    using h0 by (simp_all add: init_monitor_def)
  from this(1) this(2) [rule_format, of 3] h0 show ?thesis
    by (simp add: init_monitor_def)
qed

section \<open>ChainMonitor: the recorded tips are distinct\<close>

lemma tips_inv_update_state:
  "tips_inv s \<Longrightarrow> tips_inv (snd (update_state b w s))"
  by (auto simp: tips_inv_def update_state_def Let_def distinct_tl dest: list.set_sel(2) [rotated])

lemma tips_inv_update_calls:
  "tips_inv s \<Longrightarrow> tips_inv (update_calls w bs s)"
  by (induction bs arbitrary: s) (simp_all add: tips_inv_update_state)

text \<open>
  C10. From a freshly constructed monitor (\<open>best_tip\<close> unset, \<open>last_tips\<close> empty), after
  every sequence of \<open>update_state\<close> calls \<open>best_tip\<close> is not an element of \<open>last_tips\<close>
  and \<open>last_tips\<close> has no duplicates; every single call preserves this.
\<close>

theorem recorded_tips_distinct:
  "(best_tip (update_calls w bs (init_monitor wq rq))
      \<notin> set (last_tips (update_calls w bs (init_monitor wq rq))) \<and>
    distinct (last_tips (update_calls w bs (init_monitor wq rq)))) \<and>
   (best_tip s \<notin> set (last_tips s) \<and> distinct (last_tips s) \<longrightarrow>
      best_tip (snd (update_state b w' s)) \<notin> set (last_tips (snd (update_state b w' s))) \<and>
      distinct (last_tips (snd (update_state b w' s))))"
proof -
  have "tips_inv (init_monitor wq rq)"
    by (simp add: tips_inv_def init_monitor_def)
  then have "tips_inv (update_calls w bs (init_monitor wq rq))"
    by (rule tips_inv_update_calls)
  then show ?thesis
    using tips_inv_update_state [of s b w'] by (simp add: tips_inv_def)
qed

theorem recorded_tips_distinct_witness:
  "(best_tip (init_monitor [] []\<lparr>best_tip := Some ''b'', last_tips := [None, Some ''a'']\<rparr>)
      \<notin> set (last_tips (init_monitor [] []\<lparr>best_tip := Some ''b'', last_tips := [None, Some ''a'']\<rparr>)) \<and>
    distinct (last_tips (init_monitor [] []\<lparr>best_tip := Some ''b'', last_tips := [None, Some ''a'']\<rparr>))) \<and>
   best_tip (snd (update_state (Some ''a'') 1
       (init_monitor [] []\<lparr>best_tip := Some ''b'', last_tips := [None, Some ''a'']\<rparr>))) = Some ''b'' \<and>
   best_tip (snd (update_state (Some ''c'') 1
       (init_monitor [] []\<lparr>best_tip := Some ''b'', last_tips := [None, Some ''a'']\<rparr>)))
     \<notin> set (last_tips (snd (update_state (Some ''c'') 1
       (init_monitor [] []\<lparr>best_tip := Some ''b'', last_tips := [None, Some ''a'']\<rparr>)))) \<and>
   distinct (last_tips (update_calls 1 [Some ''a'', Some ''b'', Some ''a'', Some ''c'', Some ''a'']
       (init_monitor [] [])))"
proof -
  let ?s = "init_monitor [] []\<lparr>best_tip := Some ''b'', last_tips := [None, Some ''a'']\<rparr>"
  have h: "best_tip ?s \<notin> set (last_tips ?s) \<and> distinct (last_tips ?s)"
    by (simp add: init_monitor_def)
  have r: "best_tip (snd (update_state (Some ''a'') 1 ?s)) = Some ''b''"
    by (simp add: init_monitor_def update_state_def)
  from recorded_tips_distinct
    [of 1 "[Some ''a'', Some ''b'', Some ''a'', Some ''c'', Some ''a'']" "[]" "[]" ?s "Some ''c''" 1]
    h r
  show ?thesis by blast
qed

section \<open>Appointment: canonical serialisation and construction\<close>

lemma dict_get_dict_set:
  "dict_get (dict_set k v d) k' = (if k' = k then v else dict_get d k')"
  by (induction d) (auto simp: dict_get_def)

lemma json_dumps_order:
  assumes "distinct (map fst d0)" and "mset d = mset d0"
  shows "json_dumps d = json_dumps d0"
proof -
  from assms have "distinct (map fst d)"
    by (metis distinct_map mset_eq_setD mset_eq_imp_distinct_iff inj_on_cong set_mset_mset)
  then have "inj_on fst (set d)"
    by (simp add: distinct_map)
  moreover have "mset d = mset (sort_key fst d0)"
    using assms(2) by simp
  moreover have "sorted (map fst (sort_key fst d0))"
    by simp
  ultimately have "sort_key fst d = sort_key fst d0"
    by (intro sort_key_inj_key_eq)
  then show ?thesis
    by (simp add: json_dumps_def)
qed

lemma json_str_keys:
  \<open>json_str ''encrypted_blob'' = ''"encrypted_blob"''\<close>
  \<open>json_str ''end_time'' = ''"end_time"''\<close>
  \<open>json_str ''locator'' = ''"locator"''\<close>
  \<open>json_str ''start_time'' = ''"start_time"''\<close>
  \<open>json_str ''to_self_delay'' = ''"to_self_delay"''\<close>
  \<open>json_str ''triggered'' = ''"triggered"''\<close>
  by (simp_all add: json_str_def json_escape_char_def)

text \<open>
  C7. \<open>to_json\<close> is a function of the five fields and the \<open>triggered\<close> flag alone: its
  output is the six items in key order, with no whitespace between the tokens, the
  \<open>triggered\<close> flag among them as a field of its own. Any dictionary with the same
  items, in whatever order they were inserted, serialises to the same string.
\<close>

theorem to_json_canonical:
  \<open>to_json a triggered =
     ''{"encrypted_blob":'' @ json_val (encrypted_blob.data (encrypted_blob a)) @
     '',"end_time":'' @ json_val (end_time a) @
     '',"locator":'' @ json_val (locator a) @
     '',"start_time":'' @ json_val (start_time a) @
     '',"to_self_delay":'' @ json_val (to_self_delay a) @
     '',"triggered":'' @ (if triggered then ''true'' else ''false'') @ ''}'' \<and>
   (mset d = mset (dict_set ''triggered'' (PyBool triggered) (to_dict a)) \<longrightarrow>
      json_dumps d = to_json a triggered)\<close>
proof
  have "sort_key fst (dict_set ''triggered'' (PyBool triggered) (to_dict a)) =
    [(''encrypted_blob'', encrypted_blob.data (encrypted_blob a)), (''end_time'', end_time a),
     (''locator'', locator a), (''start_time'', start_time a),
     (''to_self_delay'', to_self_delay a), (''triggered'', PyBool triggered)]"
    by (simp add: to_dict_def)
  then show \<open>to_json a triggered =
     ''{"encrypted_blob":'' @ json_val (encrypted_blob.data (encrypted_blob a)) @
     '',"end_time":'' @ json_val (end_time a) @
     '',"locator":'' @ json_val (locator a) @
     '',"start_time":'' @ json_val (start_time a) @
     '',"to_self_delay":'' @ json_val (to_self_delay a) @
     '',"triggered":'' @ (if triggered then ''true'' else ''false'') @ ''}''\<close>
    by (simp add: to_json_def json_dumps_def json_str_keys)
  have "distinct (map fst (dict_set ''triggered'' (PyBool triggered) (to_dict a)))"
    by (simp add: to_dict_def)
  then show "mset d = mset (dict_set ''triggered'' (PyBool triggered) (to_dict a)) \<longrightarrow>
      json_dumps d = to_json a triggered"
    by (auto simp: to_json_def intro: json_dumps_order)
qed

theorem to_json_canonical_witness:
  \<open>mset [(''triggered'', PyBool True), (''encrypted_blob'', PyStr ''ff00''),
          (''to_self_delay'', PyInt 20), (''end_time'', PyInt 200),
          (''start_time'', PyInt 100), (''locator'', PyStr ''ab'')]
     = mset (dict_set ''triggered'' (PyBool True)
          (to_dict (Appointment (PyStr ''ab'') (PyInt 100) (PyInt 200) (PyInt 20) (PyStr ''ff00'')))) \<and>
   json_dumps [(''triggered'', PyBool True), (''encrypted_blob'', PyStr ''ff00''),
          (''to_self_delay'', PyInt 20), (''end_time'', PyInt 200),
          (''start_time'', PyInt 100), (''locator'', PyStr ''ab'')]
     = ''{"encrypted_blob":"ff00","end_time":200,"locator":"ab","start_time":100,"to_self_delay":20,"triggered":true}''\<close>
proof -
  let ?a = "Appointment (PyStr ''ab'') (PyInt 100) (PyInt 200) (PyInt 20) (PyStr ''ff00'')"
  let ?d = "[(''triggered'', PyBool True), (''encrypted_blob'', PyStr ''ff00''),
          (''to_self_delay'', PyInt 20), (''end_time'', PyInt 200),
          (''start_time'', PyInt 100), (''locator'', PyStr ''ab'')]"
  have h: "mset ?d = mset (dict_set ''triggered'' (PyBool True) (to_dict ?a))"
    by (simp add: to_dict_def Appointment_def)
  have v: \<open>json_val (PyStr ''ff00'') = ''"ff00"''\<close> \<open>json_val (PyStr ''ab'') = ''"ab"''\<close>
    "json_val (PyInt 100) = ''100''" "json_val (PyInt 200) = ''200''" "json_val (PyInt 20) = ''20''"
    by (simp_all add: json_str_def json_escape_char_def dec_int_def dec_nat.simps hex_digit_def)
  from to_json_canonical [of ?a True ?d] h v show ?thesis
    by (simp add: Appointment_def)
qed

text \<open>
  C8 (amended). \<open>from_dict\<close> checks that the five fields are present and nothing else:
  an appointment it constructs carries the locator of the input, which is not \<open>None\<close>,
  and every locator other than \<open>None\<close> is accepted, of whatever length and characters,
  when the other four fields are present.
\<close>

theorem from_dict_locator_unchecked:
  "(from_dict d = Inr a \<longrightarrow> locator a = dict_get d ''locator'' \<and> locator a \<noteq> PyNone) \<and>
   (l \<noteq> PyNone \<and> dict_get d ''start_time'' \<noteq> PyNone \<and> dict_get d ''end_time'' \<noteq> PyNone \<and>
    dict_get d ''to_self_delay'' \<noteq> PyNone \<and> dict_get d ''encrypted_blob'' \<noteq> PyNone \<longrightarrow>
      (\<exists>a'. from_dict (dict_set ''locator'' l d) = Inr a' \<and> locator a' = l))"
  by (auto simp: from_dict_def Let_def Appointment_def dict_get_dict_set)

theorem from_dict_locator_unchecked_witness:
  "from_dict [(''locator'', PyStr ''0123456789abcdef0123456789abcdef''), (''start_time'', PyInt 1),
              (''end_time'', PyInt 2), (''to_self_delay'', PyInt 3), (''encrypted_blob'', PyStr ''00'')]
     = Inr (Appointment (PyStr ''0123456789abcdef0123456789abcdef'') (PyInt 1) (PyInt 2) (PyInt 3)
              (PyStr ''00'')) \<and>
   locator (Appointment (PyStr ''0123456789abcdef0123456789abcdef'') (PyInt 1) (PyInt 2) (PyInt 3)
              (PyStr ''00'')) = PyStr ''0123456789abcdef0123456789abcdef'' \<and>
   (PyInt 7 \<noteq> PyNone \<and>
    dict_get [(''start_time'', PyInt 1), (''end_time'', PyInt 2), (''to_self_delay'', PyInt 3),
              (''encrypted_blob'', PyStr ''00'')] ''start_time'' \<noteq> PyNone \<and>
    dict_get [(''start_time'', PyInt 1), (''end_time'', PyInt 2), (''to_self_delay'', PyInt 3),
              (''encrypted_blob'', PyStr ''00'')] ''end_time'' \<noteq> PyNone \<and>
    dict_get [(''start_time'', PyInt 1), (''end_time'', PyInt 2), (''to_self_delay'', PyInt 3),
              (''encrypted_blob'', PyStr ''00'')] ''to_self_delay'' \<noteq> PyNone \<and>
    dict_get [(''start_time'', PyInt 1), (''end_time'', PyInt 2), (''to_self_delay'', PyInt 3),
              (''encrypted_blob'', PyStr ''00'')] ''encrypted_blob'' \<noteq> PyNone) \<and>
   (\<exists>a'. from_dict (dict_set ''locator'' (PyInt 7)
            [(''start_time'', PyInt 1), (''end_time'', PyInt 2), (''to_self_delay'', PyInt 3),
             (''encrypted_blob'', PyStr ''00'')]) = Inr a' \<and> locator a' = PyInt 7)"
proof -
  let ?d = "[(''locator'', PyStr ''0123456789abcdef0123456789abcdef''), (''start_time'', PyInt 1),
              (''end_time'', PyInt 2), (''to_self_delay'', PyInt 3), (''encrypted_blob'', PyStr ''00'')]"
  let ?a = "Appointment (PyStr ''0123456789abcdef0123456789abcdef'') (PyInt 1) (PyInt 2) (PyInt 3)
              (PyStr ''00'')"
  let ?e = "[(''start_time'', PyInt 1), (''end_time'', PyInt 2), (''to_self_delay'', PyInt 3),
              (''encrypted_blob'', PyStr ''00'')]"
  have ok: "from_dict ?d = Inr ?a"
    by (simp add: from_dict_def dict_get_def)
  have present: "PyInt 7 \<noteq> PyNone \<and> dict_get ?e ''start_time'' \<noteq> PyNone \<and>
      dict_get ?e ''end_time'' \<noteq> PyNone \<and> dict_get ?e ''to_self_delay'' \<noteq> PyNone \<and>
      dict_get ?e ''encrypted_blob'' \<noteq> PyNone"
    by (simp add: dict_get_def)
  have "locator ?a = dict_get ?d ''locator''"
    using from_dict_locator_unchecked [of ?d ?a] ok by blast
  then have loc: "locator ?a = PyStr ''0123456789abcdef0123456789abcdef''"
    by (simp add: dict_get_def)
  have "\<exists>a'. from_dict (dict_set ''locator'' (PyInt 7) ?e) = Inr a' \<and> locator a' = PyInt 7"
    using from_dict_locator_unchecked [where d = ?e and l = "PyInt 7"] present by blast
  with ok loc present show ?thesis
    by blast
qed

text \<open>
  The claim as stated fails: a two-character locator that is not hexadecimal is
  accepted and kept.
\<close>

theorem from_dict_locator_counterexample:
  "from_dict [(''locator'', PyStr ''zz''), (''start_time'', PyInt 1), (''end_time'', PyInt 2),
              (''to_self_delay'', PyInt 3), (''encrypted_blob'', PyStr ''00'')]
     = Inr (Appointment (PyStr ''zz'') (PyInt 1) (PyInt 2) (PyInt 3) (PyStr ''00'')) \<and>
   locator (Appointment (PyStr ''zz'') (PyInt 1) (PyInt 2) (PyInt 3) (PyStr ''00'')) = PyStr ''zz'' \<and>
   length ''zz'' \<noteq> 32"
  by (simp add: from_dict_def dict_get_def Appointment_def)

section \<open>Cryptographer: hexadecimal strings and the cipher\<close>

lemma hex_digit_unhex:
  assumes "k < 16"
  shows "unhex_digit (hex_digit k) = Some k"
proof -
  have "list_all (\<lambda>k. unhex_digit (hex_digit k) = Some k) [0..<16]"
    by (simp add: upt_rec hex_digit_def unhex_digit_def)
  with assms show ?thesis
    by (simp add: list_all_iff)
qed

lemma unhexlify_hexlify: "unhexlify (hexlify bs) = Inr bs"
proof (induction bs)
  case Nil
  then show ?case by (simp add: hexlify_def)
next
  case (Cons b bs)
  have lt: "unat b < 256"
    using unsigned_less [of b, where 'a = nat] by simp
  then have d: "unat b div 16 < 16" and m: "unat b mod 16 < 16"
    by simp_all
  have "word_of_nat (16 * (unat b div 16) + unat b mod 16) = b"
    by (simp add: mult_div_mod_eq)
  with Cons show ?case
    by (simp add: hexlify_def hex_digit_unhex [OF d] hex_digit_unhex [OF m])
qed

lemma even_length_hexlify: "even (length (hexlify bs))"
  by (induction bs) (simp_all add: hexlify_def)

lemma unhex_digit_lower:
  assumes "unhex_digit c = Some h"
  shows "h < 16 \<and> hex_digit h = lower_char c"
proof -
  define n where "n = (of_char c :: nat)"
  then have c: "c = char_of n" by simp
  have "list_all (\<lambda>n. char_of n \<in> set ''0123456789abcdefABCDEF'')
          ([48..<58] @ [97..<103] @ [65..<71])"
    by (simp add: upt_rec char_of_eq_iff)
  moreover from assms have "(48 \<le> n \<and> n \<le> 57) \<or> (97 \<le> n \<and> n \<le> 102) \<or> (65 \<le> n \<and> n \<le> 70)"
    unfolding unhex_digit_def Let_def n_def by (simp split: if_splits)
  then have "n \<in> set ([48..<58] @ [97..<103] @ [65..<71])"
    by (simp only: set_append set_upt Un_iff atLeastLessThan_iff) arith
  ultimately have mem: "c \<in> set ''0123456789abcdefABCDEF''"
    unfolding c list_all_iff by blast
  have "list_all (\<lambda>c. \<forall>h. unhex_digit c = Some h \<longrightarrow> h < 16 \<and> hex_digit h = lower_char c)
          ''0123456789abcdefABCDEF''"
    by (simp add: unhex_digit_def hex_digit_def lower_char_def)
  with mem assms show ?thesis
    unfolding list_all_iff by blast
qed

lemma unhexlify_valid:
  "even (length s) \<Longrightarrow> list_all is_hex_char s \<Longrightarrow>
   \<exists>bs. unhexlify s = Inr bs \<and> hexlify bs = lower s"
proof (induction s rule: unhexlify.induct)
  case 1
  then show ?case by (simp add: hexlify_def lower_def)
next
  case (2 c)
  then show ?case by simp
next
  case (3 c1 c2 cs)
  from "3.prems" obtain h l where h: "unhex_digit c1 = Some h" and l: "unhex_digit c2 = Some l"
    by (auto simp: is_hex_char_def)
  from unhex_digit_lower [OF h] unhex_digit_lower [OF l]
  have hl: "h < 16" "l < 16" "hex_digit h = lower_char c1" "hex_digit l = lower_char c2"
    by simp_all
  from "3.IH" [OF refl h l] "3.prems" obtain bs where
    bs: "unhexlify cs = Inr bs" "hexlify bs = lower cs"
    by auto
  from hl have "16 * h + l < 256" by simp
  moreover have "unat (word_of_nat (16 * h + l) :: byte) = (16 * h + l) mod 2 ^ LENGTH(8)"
    by (rule unat_of_nat)
  ultimately have u: "unat (word_of_nat (16 * h + l) :: byte) = 16 * h + l"
    by simp
  from hl have "(16 * h + l) div 16 = h" "(16 * h + l) mod 16 = l"
    by simp_all
  with h l bs hl u show ?case
    by (simp add: hexlify_def lower_def)
qed

lemma length_chunks_exact:
  "0 < n \<Longrightarrow> length xs = n * k \<Longrightarrow> length (chunks n xs) = k"
proof (induction k arbitrary: xs)
  case 0
  then show ?case by (simp add: chunks.simps)
next
  case (Suc k)
  then have "xs \<noteq> []" by auto
  moreover from Suc.prems have "length (drop n xs) = n * k" by simp
  ultimately show ?case
    using Suc.IH [of "drop n xs"] Suc.prems(1) by (subst chunks.simps) simp
qed

lemma length_le_bytes [simp]: "length (le_bytes n x) = n"
  by (simp add: le_bytes_def)

lemma length_be_bytes [simp]: "length (be_bytes n x) = n"
  by (simp add: be_bytes_def)

lemma length_concat_const:
  "(\<And>x. x \<in> set xs \<Longrightarrow> length (f x) = n) \<Longrightarrow> length (concat (map f xs)) = n * length xs"
  by (induction xs) simp_all

lemma length_sha256_round [simp]: "length (sha256_round v kw) = length v"
  by (cases "(v, kw)" rule: sha256_round.cases) (simp_all add: Let_def)

lemma length_foldl_sha256_round [simp]: "length (foldl sha256_round v kws) = length v"
  by (induction kws arbitrary: v) simp_all

lemma length_sha256_compress [simp]: "length (sha256_compress hs block) = length hs"
  by (simp add: sha256_compress_def Let_def)

lemma length_foldl_sha256_compress [simp]:
  "length (foldl sha256_compress hs blocks) = length hs"
  by (induction blocks arbitrary: hs) simp_all

lemma length_sha256: "length (sha256 m) = 32"
  by (simp add: sha256_def sha256_h0_def length_concat_const [where n = 4])

lemma length_quarter_round [simp]: "length (quarter_round a b c d s) = length s"
  by (simp add: quarter_round_def Let_def)

lemma length_double_round [simp]: "length (double_round s) = length s"
  by (simp add: double_round_def)

lemma length_double_rounds [simp]: "length ((double_round ^^ n) s) = length s"
  by (induction n) simp_all

lemma length_chacha20_block:
  assumes "length key = 32" and "length nonce = 12"
  shows "length (chacha20_block key counter nonce) = 64"
proof -
  have "length (chunks 4 key) = 8" "length (chunks 4 nonce) = 3"
    using assms length_chunks_exact [of 4 key 8] length_chunks_exact [of 4 nonce 3] by simp_all
  then show ?thesis
    by (simp add: chacha20_block_def Let_def length_concat_const [where n = 4])
qed

lemma length_chacha20_keystream:
  assumes "length key = 32" and "length nonce = 12"
  shows "length (chacha20_keystream key counter nonce n) = 64 * ((n + 63) div 64)"
  unfolding chacha20_keystream_def
  by (simp add: length_concat_const [where n = 64] length_chacha20_block [OF assms])

lemma xor_twice:
  "length m \<le> length ks \<Longrightarrow> map2 (XOR) (map2 (XOR) m ks) ks = (m :: bytes)"
proof (induction m arbitrary: ks)
  case Nil
  then show ?case by simp
next
  case (Cons b m)
  then obtain k ks' where "ks = k # ks'" by (cases ks) auto
  with Cons show ?case by (simp add: xor.assoc)
qed

lemma chacha20_encrypt_twice:
  assumes "length key = 32" and "length nonce = 12"
  shows "chacha20_encrypt key counter nonce (chacha20_encrypt key counter nonce m) = m"
proof -
  let ?ks = "chacha20_keystream key counter nonce (length m)"
  have le: "length m \<le> length ?ks"
    unfolding length_chacha20_keystream [OF assms] by arith
  then have "length (map2 (XOR) m ?ks) = length m"
    by simp
  then show ?thesis
    unfolding chacha20_encrypt_def using xor_twice [OF le] by simp
qed

lemma length_aead_tag: "length (aead_tag key nonce aad ct) = 16"
  by (simp add: aead_tag_def poly1305_mac_def Let_def)

lemma chacha20poly1305_roundtrip:
  assumes "length key = 32" and "length nonce = 12"
  shows "chacha20poly1305_decrypt key nonce (chacha20poly1305_encrypt key nonce m aad) aad = Some m"
  by (simp add: chacha20poly1305_decrypt_def chacha20poly1305_encrypt_def Let_def
      length_aead_tag chacha20_encrypt_twice [OF assms])

section \<open>Cryptographer: encrypt and decrypt\<close>

lemma lower_char_id:
  assumes "c \<notin> set ''ABCDEF''" and "is_hex_char c"
  shows "lower_char c = c"
proof (cases "c \<in> set ''GHIJKLMNOPQRSTUVWXYZ''")
  case True
  have "list_all (\<lambda>c. \<not> is_hex_char c) ''GHIJKLMNOPQRSTUVWXYZ''"
    by (simp add: is_hex_char_def unhex_digit_def)
  with True assms(2) show ?thesis
    unfolding list_all_iff by blast
next
  case False
  with assms(1) have "c \<notin> set ''ABCDEFGHIJKLMNOPQRSTUVWXYZ''"
    by simp
  then have "map_of (zip ''ABCDEFGHIJKLMNOPQRSTUVWXYZ'' ''abcdefghijklmnopqrstuvwxyz'') c = None"
    using map_of_zip_is_None [of "''ABCDEFGHIJKLMNOPQRSTUVWXYZ''" "''abcdefghijklmnopqrstuvwxyz''" c]
    by simp
  then show ?thesis
    by (simp add: lower_char_def)
qed

lemma lower_id:
  "list_all is_hex_char s \<Longrightarrow> list_all (\<lambda>c. c \<notin> set ''ABCDEF'') s \<Longrightarrow> lower s = s"
  by (induction s) (simp_all add: lower_def lower_char_id)

lemma check_sha256_hex_format_unhexlify:
  assumes "check_sha256_hex_format secret"
  obtains raw where "unhexlify secret = Inr raw"
  using assms unhexlify_valid [of secret] by (auto simp: check_sha256_hex_format_def)

lemma encrypt_valid:
  assumes "unhexlify dat = Inr tx" and "even (length dat)"
    and "check_sha256_hex_format secret" and "unhexlify secret = Inr raw"
  shows "encrypt_steps (Blob dat) secret =
    ([KeyDerivation, CipherInit, CipherEncrypt],
     Inr (hexlify (chacha20poly1305_encrypt (sha256 raw) (replicate 12 0) tx [])))"
  using assms
  by (simp add: encrypt_steps_def and_then_def plain_def performs_def check_data_key_format_def)

lemma decrypt_valid:
  assumes "check_sha256_hex_format secret" and "unhexlify secret = Inr raw"
  shows "decrypt_steps (EncryptedBlob (hexlify ct)) secret =
    ([KeyDerivation, CipherInit, CipherDecrypt],
     Inr (map_option hexlify (chacha20poly1305_decrypt (sha256 raw) (replicate 12 0) ct [])))"
  using assms even_length_hexlify [of ct]
  by (simp add: decrypt_steps_def and_then_def plain_def performs_def check_data_key_format_def
      unhexlify_hexlify)

lemma decrypt_encrypt_lower:
  assumes "even (length dat)" and "list_all is_hex_char dat" and "check_sha256_hex_format secret"
  shows "decrypt_encrypt (Blob dat) secret = Inr (Some (lower dat))"
proof -
  from unhexlify_valid [OF assms(1,2)] obtain tx where
    tx: "unhexlify dat = Inr tx" "hexlify tx = lower dat"
    by blast
  from assms(3) obtain raw where raw: "unhexlify secret = Inr raw"
    by (rule check_sha256_hex_format_unhexlify)
  have "chacha20poly1305_decrypt (sha256 raw) (replicate 12 0)
          (chacha20poly1305_encrypt (sha256 raw) (replicate 12 0) tx []) [] = Some tx"
    by (rule chacha20poly1305_roundtrip) (simp_all add: length_sha256)
  then show ?thesis
    by (simp add: decrypt_encrypt_def encrypt_def decrypt_def tx
        encrypt_valid [OF tx(1) assms(1,3) raw] decrypt_valid [OF assms(3) raw])
qed

text \<open>
  C4. When the data has an odd number of characters or the secret is not 64 hex
  characters, \<open>encrypt\<close> and \<open>decrypt\<close> raise \<open>ValueError\<close>, and they have performed
  no cipher operation by then: no key derivation, no cipher construction, no
  encryption or decryption.
\<close>

theorem format_error_before_cipher:
  assumes "odd (length dat) \<or> \<not> check_sha256_hex_format secret"
  shows "encrypt_steps (Blob dat) secret =
           ([], Inl (ValueError (if odd (length dat) then ''Incorrect (Odd-length) value''
                                 else ''Secret must be a 32-byte hex value (64 hex chars)''))) \<and>
         decrypt_steps (EncryptedBlob dat) secret =
           ([], Inl (ValueError (if odd (length dat) then ''Incorrect (Odd-length) value''
                                 else ''Secret must be a 32-byte hex value (64 hex chars)'')))"
  using assms
  by (auto simp: encrypt_steps_def decrypt_steps_def and_then_def plain_def
      check_data_key_format_def odd_iff_mod_2_eq_one)

theorem format_error_before_cipher_witness:
  "odd (length ''abc'') \<and>
   \<not> check_sha256_hex_format ''00'' \<and>
   encrypt_steps (Blob ''abc'') ''b2e984a570f6f49bc38ace178e09147b0aa296cbb7c92eb01412f7e2d07b5659''
     = ([], Inl (ValueError ''Incorrect (Odd-length) value'')) \<and>
   decrypt_steps (EncryptedBlob ''abcd'') ''00''
     = ([], Inl (ValueError ''Secret must be a 32-byte hex value (64 hex chars)''))"
proof -
  have a: "odd (length ''abc'')" by simp
  have b: "\<not> check_sha256_hex_format ''00''" by (simp add: check_sha256_hex_format_def)
  from format_error_before_cipher [of "''abc''" "''b2e984a570f6f49bc38ace178e09147b0aa296cbb7c92eb01412f7e2d07b5659''"] a
  have "encrypt_steps (Blob ''abc'') ''b2e984a570f6f49bc38ace178e09147b0aa296cbb7c92eb01412f7e2d07b5659''
     = ([], Inl (ValueError ''Incorrect (Odd-length) value''))"
    by simp
  moreover from format_error_before_cipher [of "''abcd''" "''00''"] b
  have "decrypt_steps (EncryptedBlob ''abcd'') ''00''
     = ([], Inl (ValueError ''Secret must be a 32-byte hex value (64 hex chars)''))"
    by simp
  ultimately show ?thesis using a b by blast
qed

text \<open>
  C3 (amended). For a blob whose data is valid hex of even length and a secret of 64
  hex characters, decrypting the encryption answers the data in lower case; it is the
  data itself when the data has no upper-case digit.
\<close>

theorem decrypt_encrypt_roundtrip:
  assumes "even (length (blob.data b))" and "list_all is_hex_char (blob.data b)"
    and "check_sha256_hex_format secret"
  shows "decrypt_encrypt b secret = Inr (Some (lower (blob.data b))) \<and>
         (list_all (\<lambda>c. c \<notin> set ''ABCDEF'') (blob.data b) \<longrightarrow>
            decrypt_encrypt b secret = Inr (Some (blob.data b)))"
  using decrypt_encrypt_lower [OF assms] lower_id [OF assms(2)]
  by (cases b) simp

lemma secret_ok:
  "check_sha256_hex_format ''b2e984a570f6f49bc38ace178e09147b0aa296cbb7c92eb01412f7e2d07b5659''"
  by (simp add: check_sha256_hex_format_def is_hex_char_def unhex_digit_def)

theorem decrypt_encrypt_roundtrip_witness:
  "even (length (blob.data (Blob ''6097cdf52309b1b2124efeed36bd34f46dc1c25ad23ac86f28380f746254f777''))) \<and>
   list_all is_hex_char (blob.data (Blob ''6097cdf52309b1b2124efeed36bd34f46dc1c25ad23ac86f28380f746254f777'')) \<and>
   check_sha256_hex_format ''b2e984a570f6f49bc38ace178e09147b0aa296cbb7c92eb01412f7e2d07b5659'' \<and>
   list_all (\<lambda>c. c \<notin> set ''ABCDEF'') (blob.data (Blob ''6097cdf52309b1b2124efeed36bd34f46dc1c25ad23ac86f28380f746254f777'')) \<and>
   decrypt_encrypt (Blob ''6097cdf52309b1b2124efeed36bd34f46dc1c25ad23ac86f28380f746254f777'')
       ''b2e984a570f6f49bc38ace178e09147b0aa296cbb7c92eb01412f7e2d07b5659''
     = Inr (Some ''6097cdf52309b1b2124efeed36bd34f46dc1c25ad23ac86f28380f746254f777'')"
proof -
  let ?b = "Blob ''6097cdf52309b1b2124efeed36bd34f46dc1c25ad23ac86f28380f746254f777''"
  let ?s = "''b2e984a570f6f49bc38ace178e09147b0aa296cbb7c92eb01412f7e2d07b5659''"
  have h1: "even (length (blob.data ?b))" by simp
  have h2: "list_all is_hex_char (blob.data ?b)"
    by (simp add: is_hex_char_def unhex_digit_def)
  have h3: "list_all (\<lambda>c. c \<notin> set ''ABCDEF'') (blob.data ?b)" by simp
  from decrypt_encrypt_roundtrip [OF h1 h2 secret_ok] h3
  have "decrypt_encrypt ?b ?s = Inr (Some (blob.data ?b))" by blast
  with h1 h2 h3 secret_ok show ?thesis by simp
qed

text \<open>
  The claim as stated fails on upper-case digits: \<open>unhexlify\<close> reads them and
  \<open>hexlify\<close> writes lower case.
\<close>

theorem decrypt_encrypt_upper_case_counterexample:
  "even (length (blob.data (Blob ''AB''))) \<and>
   list_all is_hex_char (blob.data (Blob ''AB'')) \<and>
   check_sha256_hex_format ''b2e984a570f6f49bc38ace178e09147b0aa296cbb7c92eb01412f7e2d07b5659'' \<and>
   decrypt_encrypt (Blob ''AB'') ''b2e984a570f6f49bc38ace178e09147b0aa296cbb7c92eb01412f7e2d07b5659''
     = Inr (Some ''ab'') \<and>
   decrypt_encrypt (Blob ''AB'') ''b2e984a570f6f49bc38ace178e09147b0aa296cbb7c92eb01412f7e2d07b5659''
     \<noteq> Inr (Some (blob.data (Blob ''AB'')))"
proof -
  have h1: "even (length ''AB'')" by simp
  have h2: "list_all is_hex_char ''AB''"
    by (simp add: is_hex_char_def unhex_digit_def)
  have "lower ''AB'' = ''ab''"
    by (simp add: lower_def lower_char_def)
  with decrypt_encrypt_lower [OF h1 h2 secret_ok] h1 h2 secret_ok show ?thesis
    by simp
qed

section \<open>Cryptographer: the signature encodings\<close>

lemma bits_of_nat_Suc:
  "bits_of_nat (Suc n) x = bits_of_nat n (x div 2) @ [odd x]"
proof -
  have "[0..<Suc n] = 0 # map Suc [0..<n]"
    by (simp only: map_Suc_upt upt_conv_Cons [of 0 "Suc n", OF zero_less_Suc])
  then have "rev [0..<Suc n] = map Suc (rev [0..<n]) @ [0]"
    by (simp only: rev.simps rev_map)
  then show ?thesis
    by (simp add: bits_of_nat_def div_mult2_eq del: upt_Suc)
qed

lemma nat_of_bits_snoc:
  "nat_of_bits (g @ [b]) = 2 * nat_of_bits g + (if b then 1 else 0)"
  by (simp add: nat_of_bits_def)

lemma bits_of_nat_of_bits:
  "length g = n \<Longrightarrow> bits_of_nat n (nat_of_bits g) = g"
proof (induction g arbitrary: n rule: rev_induct)
  case Nil
  then show ?case by (simp add: bits_of_nat_def)
next
  case (snoc b g)
  then obtain m where m: "n = Suc m" "length g = m" by auto
  with snoc.IH [of m] show ?case
    by (simp add: bits_of_nat_Suc nat_of_bits_snoc)
qed

lemma nat_of_bits_of_nat:
  "nat_of_bits (bits_of_nat n x) = x mod 2 ^ n"
proof (induction n arbitrary: x)
  case 0
  then show ?case by (simp add: bits_of_nat_def nat_of_bits_def)
next
  case (Suc n)
  have "x mod (2 * 2 ^ n) = 2 * (x div 2 mod 2 ^ n) + x mod 2"
    by (simp add: mod_mult2_eq)
  with Suc show ?case
    by (auto simp: bits_of_nat_Suc nat_of_bits_snoc odd_iff_mod_2_eq_one)
qed

lemma nat_of_bits_less: "nat_of_bits g < 2 ^ length g"
  by (induction g rule: rev_induct) (auto simp: nat_of_bits_snoc nat_of_bits_def)

lemma length_bits_of_nat [simp]: "length (bits_of_nat n x) = n"
  by (simp add: bits_of_nat_def)

lemma concat_chunks: "0 < n \<Longrightarrow> concat (chunks n xs) = xs"
proof (induction n xs rule: chunks.induct)
  case (1 n xs)
  then show ?case
    by (subst chunks.simps) auto
qed

lemma length_in_chunks:
  "0 < n \<Longrightarrow> n dvd length xs \<Longrightarrow> g \<in> set (chunks n xs) \<Longrightarrow> length g = n"
proof (induction n xs rule: chunks.induct)
  case (1 n xs)
  show ?case
  proof (cases "xs = []")
    case True
    with "1.prems" show ?thesis by (simp add: chunks.simps)
  next
    case False
    with "1.prems"(1,2) have le: "n \<le> length xs"
      by (auto dest: dvd_imp_le)
    from "1.prems"(3) False "1.prems"(1)
    have "g = take n xs \<or> g \<in> set (chunks n (drop n xs))"
      by (subst (asm) chunks.simps) auto
    moreover from "1.prems"(2) le have "n dvd length (drop n xs)"
      by (simp add: dvd_diff_nat)
    ultimately show ?thesis
      using "1.IH" "1.prems"(1) False le by auto
  qed
qed

lemma chunks_concat_map:
  assumes "0 < n" and "\<And>x. length (f x) = n"
  shows "chunks n (concat (map f xs)) = map f xs"
proof (induction xs)
  case Nil
  then show ?case by (simp add: chunks.simps)
next
  case (Cons x xs)
  from assms have "f x \<noteq> []" by (metis length_0_conv less_numeral_extra(3))
  with Cons assms show ?case
    by (subst chunks.simps) simp
qed

lemma index_of_alphabet:
  assumes "i < 32"
  shows "index_of (zbase32_alphabet ! i) zbase32_alphabet = Some i"
proof -
  have "list_all (\<lambda>i. index_of (zbase32_alphabet ! i) zbase32_alphabet = Some i) [0..<32]"
    by (simp add: upt_rec zbase32_alphabet_def)
  with assms show ?thesis
    by (simp add: list_all_iff)
qed

lemma decode_quintets_encode:
  "(\<And>g. g \<in> set gs \<Longrightarrow> length g = 5) \<Longrightarrow>
   decode_quintets (map (\<lambda>g. zbase32_alphabet ! nat_of_bits g) gs) = Inr (concat gs)"
proof (induction gs)
  case Nil
  then show ?case by simp
next
  case (Cons g gs)
  then have g: "length g = 5" by simp
  with nat_of_bits_less [of g] have "nat_of_bits g < 32" by simp
  with Cons g show ?case
    by (simp add: index_of_alphabet bits_of_nat_of_bits)
qed

lemma length_bits_of_bytes: "length (bits_of_bytes bs) = 8 * length bs"
  by (induction bs) (simp_all add: bits_of_bytes_def)

lemma pad_to_five: "5 dvd L + (5 - L mod 5) mod 5" for L :: nat
proof -
  have "(L + (5 - L mod 5) mod 5) mod 5 = (L mod 5 + (5 - L mod 5) mod 5) mod 5"
    by (simp only: mod_add_left_eq)
  also have "\<dots> = 0"
    by (cases "L mod 5 = 0") simp_all
  finally show ?thesis
    by (simp only: dvd_eq_mod_eq_0)
qed

lemma decode_encode_bytes: "decode_bytes (encode_bytes bs) = Inr bs"
proof -
  define bits where "bits = bits_of_bytes bs"
  define p where "p = (5 - length bits mod 5) mod 5"
  define padded where "padded = bits @ replicate p False"
  have len: "length bits = 8 * length bs"
    by (simp add: bits_def length_bits_of_bytes)
  have "5 dvd length padded"
    by (simp add: padded_def p_def pad_to_five)
  then have five: "\<And>g. g \<in> set (chunks 5 padded) \<Longrightarrow> length g = 5"
    using length_in_chunks [of 5 padded] by simp
  have q: "decode_quintets (encode_bytes bs) = Inr padded"
    using decode_quintets_encode [OF five]
    by (simp add: encode_bytes_def Let_def bits_def [symmetric] p_def [symmetric]
        padded_def [symmetric] concat_chunks)
  have "p < 5" by (simp add: p_def)
  then have "length padded div 8 = length bs"
    by (simp add: padded_def len)
  then have t: "take (8 * (length padded div 8)) padded = bits"
    by (simp add: padded_def len)
  have "chunks 8 bits = map (\<lambda>b. bits_of_nat 8 (unat b)) bs"
    unfolding bits_def bits_of_bytes_def by (rule chunks_concat_map) simp_all
  moreover have "word_of_nat (nat_of_bits (bits_of_nat 8 (unat b))) = b" for b :: byte
    using unsigned_less [of b, where 'a = nat] by (simp add: nat_of_bits_of_nat)
  ultimately show ?thesis
    by (simp add: decode_bytes_def q t map_idI)
qed

lemma int_to_bytes_byte:
  assumes "0 \<le> i" and "i < 256"
  shows "int_to_bytes i = Inr [word_of_int i]"
proof -
  from assms have "nat i < 256" by simp
  then have "byte_length (nat i) = 1" by (simp add: byte_length.simps)
  with assms show ?thesis
    by (simp add: int_to_bytes_def be_bytes_def le_bytes_def)
qed

lemma sigrec_decode_encode:
  assumes "length rsig_rid = 65" and "rsig_rid ! 64 \<le> 3"
  shows "\<exists>sigrec. sigrec_encode rsig_rid = Inr sigrec \<and> sigrec_decode sigrec = Inr rsig_rid"
proof -
  define rid where "rid = rsig_rid ! 64"
  from assms(2) have r: "uint rid \<le> 3" "0 \<le> uint rid"
    by (simp_all add: rid_def word_le_def)
  then have enc: "int_to_bytes (uint rid + 31) = Inr [rid + 31]"
    by (subst int_to_bytes_byte) simp_all
  from r have "uint (rid + 31) = uint rid + 31"
    by (simp add: uint_word_ariths)
  with r have dec: "int_to_bytes (uint (rid + 31) - 31) = Inr [rid]"
    by (subst int_to_bytes_byte) simp_all
  from assms(1) have "take (Suc 64) rsig_rid = take 64 rsig_rid @ [rsig_rid ! 64]"
    by (intro take_Suc_conv_app_nth) simp
  with assms(1) have "take 64 rsig_rid @ [rid] = rsig_rid"
    by (simp add: rid_def)
  with assms(1) enc dec show ?thesis
    by (simp add: sigrec_encode_def sigrec_decode_def rid_def [symmetric])
qed

section \<open>Cryptographer: sign and recover\_pk\<close>

lemma decode_quintets_y:
  "decode_quintets (replicate n CHR ''y'') = Inr (replicate (5 * n) False)"
proof (induction n)
  case 0
  then show ?case by simp
next
  case (Suc n)
  have "bits_of_nat 5 0 = [False, False, False, False, False]"
    by (simp add: bits_of_nat_def upt_rec)
  moreover have "replicate 5 False = [False, False, False, False, False]"
    by (simp add: numeral_eq_Suc)
  ultimately have "bits_of_nat 5 0 = replicate 5 False"
    by simp
  moreover have "index_of CHR ''y'' zbase32_alphabet = Some 0"
    by (simp add: zbase32_alphabet_def)
  moreover have "replicate (5 + 5 * n) False = replicate 5 False @ replicate (5 * n) False"
    by (simp only: replicate_add)
  ultimately show ?case
    using Suc by simp
qed

lemma chunks_replicate:
  "chunks 8 (replicate (8 * k) x) = replicate k (replicate 8 x)"
proof (induction k)
  case 0
  then show ?case by (simp add: chunks.simps)
next
  case (Suc k)
  have "replicate (8 * Suc k) x = replicate 8 x @ replicate (8 * k) x"
    by (simp add: replicate_add [symmetric])
  with Suc show ?case
    by (subst chunks.simps) simp
qed

lemma nat_of_bits_zero: "nat_of_bits (replicate n False) = 0"
  by (induction n) (simp_all add: nat_of_bits_def)

lemma decode_bytes_y:
  "decode_bytes (replicate (8 * k) CHR ''y'') = Inr (replicate (5 * k) 0)"
proof -
  have "take (8 * (length (replicate (5 * (8 * k)) False) div 8)) (replicate (5 * (8 * k)) False)
      = replicate (8 * (5 * k)) False"
    by simp
  then show ?thesis
    using chunks_replicate [of "5 * k" False]
    by (simp add: decode_bytes_def decode_quintets_y nat_of_bits_zero del: replicate.simps)
qed

lemma sigrec_decode_low:
  assumes "b0 < 31"
  shows "sigrec_decode (b0 # rsig) = Inl OverflowError"
proof -
  from assms have "uint b0 < 31"
    by (simp add: word_less_def)
  then show ?thesis
    by (simp add: sigrec_decode_def int_to_bytes_def)
qed

text \<open>
  C6. \<open>recover_pk\<close> is to answer \<open>None\<close> for every malformed signature. It does so
  for what \<open>from_signature_and_message\<close> raises, but \<open>sigrec_decode\<close> runs before the
  \<open>try\<close>: on the z-base-32 encoding of 65 zero bytes, a signature of the right length
  whose first byte is below 31, \<open>int_to_bytes\<close> is called on \<open>-31\<close> and its
  \<open>OverflowError\<close> leaves \<open>recover_pk\<close>.
\<close>

theorem recover_pk_raises_overflow:
  "recover_pk lib message (replicate 104 CHR ''y'') = Inl OverflowError"
proof -
  have "decode_bytes (replicate 104 CHR ''y'') = Inr (replicate 65 0)"
    using decode_bytes_y [of 13] by simp
  moreover have "replicate 65 (0 :: byte) = 0 # replicate 64 0"
    by (simp add: numeral_eq_Suc)
  then have "sigrec_decode (replicate 65 0) = Inl OverflowError"
    using sigrec_decode_low [of 0 "replicate 64 0"] by simp
  ultimately show ?thesis
    by (simp add: recover_pk_def)
qed

text \<open>
  C5. For every message and private key, \<open>recover_pk\<close> on the signature that \<open>sign\<close>
  makes answers a public key that \<open>verify_rpk\<close> accepts against the key's own public
  key. The ECDSA of \<open>coincurve\<close> enters through its contract on this key and digest:
  \<open>sign_recoverable\<close> answers 64 signature bytes and a recovery id of at most 3, and
  \<open>from_signature_and_message\<close> recovers from them a key with the point of the
  signer's public key. The theorem is about what the Cryptographer adds: the prefix and
  the double hash on both sides, the move of the recovery id, and z-base-32.
\<close>

theorem recover_pk_sign_roundtrip:
  fixes lib :: "('sk, 'pk, 'pt) coincurve"
  assumes "length (sign_recoverable lib sk (sha256d (LN_MESSAGE_PREFIX @ message))) = 65"
    and "sign_recoverable lib sk (sha256d (LN_MESSAGE_PREFIX @ message)) ! 64 \<le> 3"
    and "from_signature_and_message lib
           (sign_recoverable lib sk (sha256d (LN_MESSAGE_PREFIX @ message)))
           (sha256d (LN_MESSAGE_PREFIX @ message)) = Inr pk"
    and "point lib pk = point lib (public_key lib sk)"
  shows "\<exists>zb32_sig. sign lib message sk = Inr zb32_sig \<and>
           recover_pk lib message zb32_sig = Inr (Some pk) \<and>
           verify_rpk lib (public_key lib sk) pk"
proof -
  from sigrec_decode_encode [OF assms(1,2)] obtain sigrec where
    s: "sigrec_encode (sign_recoverable lib sk (sha256d (LN_MESSAGE_PREFIX @ message))) = Inr sigrec"
       "sigrec_decode sigrec = Inr (sign_recoverable lib sk (sha256d (LN_MESSAGE_PREFIX @ message)))"
    by blast
  then have "sign lib message sk = Inr (encode_bytes sigrec)"
    by (simp add: sign_def)
  moreover have "recover_pk lib message (encode_bytes sigrec) = Inr (Some pk)"
    by (simp add: recover_pk_def decode_encode_bytes s(2) assms(3))
  moreover have "verify_rpk lib (public_key lib sk) pk"
    by (simp add: verify_rpk_def assms(4))
  ultimately show ?thesis
    by blast
qed

theorem recover_pk_sign_roundtrip_witness:
  "length (sign_recoverable
      \<lparr>sign_recoverable = (\<lambda>sk d. sk @ [1]), from_signature_and_message = (\<lambda>s d. Inr (take 64 s)),
       public_key = (\<lambda>sk. sk), point = (\<lambda>pk. pk)\<rparr>
      (replicate 64 7) (sha256d (LN_MESSAGE_PREFIX @ map of_char ''Test message''))) = 65 \<and>
   (\<exists>zb32_sig.
      sign \<lparr>sign_recoverable = (\<lambda>sk d. sk @ [1]), from_signature_and_message = (\<lambda>s d. Inr (take 64 s)),
            public_key = (\<lambda>sk. sk), point = (\<lambda>pk. pk)\<rparr>
        (map of_char ''Test message'') (replicate 64 7) = Inr zb32_sig \<and>
      recover_pk \<lparr>sign_recoverable = (\<lambda>sk d. sk @ [1]), from_signature_and_message = (\<lambda>s d. Inr (take 64 s)),
            public_key = (\<lambda>sk. sk), point = (\<lambda>pk. pk)\<rparr>
        (map of_char ''Test message'') zb32_sig = Inr (Some (replicate 64 7)))"
proof -
  let ?lib = "\<lparr>sign_recoverable = (\<lambda>sk d. sk @ [1 :: byte]),
      from_signature_and_message = (\<lambda>s d. Inr (take 64 s) :: py_error + bytes),
      public_key = (\<lambda>sk :: bytes. sk), point = (\<lambda>pk :: bytes. pk)\<rparr>"
  let ?m = "map of_char ''Test message'' :: bytes"
  let ?d = "sha256d (LN_MESSAGE_PREFIX @ ?m)"
  let ?sk = "replicate 64 7 :: bytes"
  have h1: "length (sign_recoverable ?lib ?sk ?d) = 65" by simp
  have h2: "sign_recoverable ?lib ?sk ?d ! 64 \<le> 3" by (simp add: nth_append)
  have h3: "from_signature_and_message ?lib (sign_recoverable ?lib ?sk ?d) ?d = Inr ?sk" by simp
  have h4: "point ?lib ?sk = point ?lib (public_key ?lib ?sk)" by simp
  from recover_pk_sign_roundtrip [of ?lib ?sk ?m ?sk, OF h1 h2 h3 h4] h1 show ?thesis
    by blast
qed

end
